theory Spec2Isabelle
  imports Main "HOL-Library.Sublist"
begin

section \<open>Python values\<close>

text \<open>
  A Python \<open>str\<close> is a sequence of Unicode code points; it is modelled as the list of
  its code points, so that slicing and \<open>len\<close> count what Python counts and the
  characters beyond ASCII that the sources use can be written down.
\<close>

type_synonym pystr = "nat list"

definition str :: "string \<Rightarrow> pystr" where
  "str s = map of_char s"

text \<open>The exceptions the modelled code can raise.\<close>

datatype py_error = IndexError | KeyError | SubAgentFault

text \<open>
  \<open>xs[i]\<close> on a list: an index from \<open>-len(xs)\<close> to \<open>-1\<close> counts from the end, and an
  index outside \<open>-len(xs) .. len(xs) - 1\<close> raises \<open>IndexError\<close>.
\<close>

definition getitem :: "'a list \<Rightarrow> int \<Rightarrow> py_error + 'a" where
  "getitem xs i =
     (if 0 \<le> i \<and> i < int (length xs) then Inr (xs ! nat i)
      else if - int (length xs) \<le> i \<and> i < 0 then Inr (xs ! nat (int (length xs) + i))
      else Inl IndexError)"

text \<open>\<open>sep.join(xs)\<close>.\<close>

fun join :: "pystr \<Rightarrow> pystr list \<Rightarrow> pystr" where
  "join sep [] = []"
| "join sep [x] = x"
| "join sep (x # y # ys) = x @ sep @ join sep (y # ys)"

text \<open>
  \<open>str(i)\<close> for an integer and the format \<open>{i:6d}\<close>: the decimal digits, a minus sign
  before them for a negative number, padded with spaces on the left to six characters;
  a longer number is not cut.
\<close>

fun digits :: "nat \<Rightarrow> pystr" where
  "digits n = (if n < 10 then [48 + n] else digits (n div 10) @ [48 + n mod 10])"

declare digits.simps [simp del]

definition str_int :: "int \<Rightarrow> pystr" where
  "str_int i = (if i < 0 then 45 # digits (nat (- i)) else digits (nat i))"

definition format_6d :: "int \<Rightarrow> pystr" where
  "format_6d i = replicate (6 - length (str_int i)) 32 @ str_int i"

text \<open>
  \<open>s.splitlines()\<close>: the text is cut at every line boundary (line feed, vertical tab,
  form feed, carriage return, the separators U+001C to U+001E, next line U+0085, line
  separator U+2028 and paragraph separator U+2029); a carriage return followed by a line
  feed is one boundary; the boundaries are dropped, and no empty line follows a final
  boundary.
\<close>

definition is_line_boundary :: "nat \<Rightarrow> bool" where
  "is_line_boundary c = (c \<in> {10, 11, 12, 13, 28, 29, 30, 133, 8232, 8233})"

fun splitlines_from :: "pystr \<Rightarrow> pystr \<Rightarrow> pystr list" where
  "splitlines_from cur [] = (if cur = [] then [] else [cur])"
| "splitlines_from cur (c # cs) =
     (if c = 13 \<and> cs \<noteq> [] \<and> hd cs = 10 then cur # splitlines_from [] (tl cs)
      else if is_line_boundary c then cur # splitlines_from [] cs
      else splitlines_from (cur @ [c]) cs)"

definition splitlines :: "pystr \<Rightarrow> pystr list" where
  "splitlines s = splitlines_from [] s"



text \<open>
  \<open>repr(s)\<close> of a string, which an f-string applies to the elements of a list. The
  quote is the apostrophe unless the string holds an apostrophe and no double quote. The
  quote and the backslash are escaped with a backslash; tab, line feed and carriage
  return are written as a backslash and the letter t, n or r; the other ASCII control
  characters are written as a backslash, the letter x and two hexadecimal digits; the
  other ASCII characters stand for themselves. A character beyond ASCII stands for
  itself when the Unicode database calls it printable, and is otherwise written as a
  backslash, the letter x, u or U and two, four or eight hexadecimal digits. The
  database is not part of the
  sources: \<open>isprintable\<close> is a parameter.
\<close>

definition hexdigit :: "nat \<Rightarrow> nat" where
  "hexdigit d = (if d < 10 then 48 + d else 87 + d)"

fun hex :: "nat \<Rightarrow> nat \<Rightarrow> pystr" where
  "hex 0 n = []"
| "hex (Suc w) n = hex w (n div 16) @ [hexdigit (n mod 16)]"

definition repr_char :: "(nat \<Rightarrow> bool) \<Rightarrow> nat \<Rightarrow> nat \<Rightarrow> pystr" where
  "repr_char isprintable quote ch =
     (if ch = quote \<or> ch = 92 then [92, ch]
      else if ch = 9 then [92, 116]
      else if ch = 10 then [92, 110]
      else if ch = 13 then [92, 114]
      else if ch < 32 \<or> ch = 127 then [92, 120] @ hex 2 ch
      else if ch < 127 then [ch]
      else if isprintable ch then [ch]
      else if ch \<le> 255 then [92, 120] @ hex 2 ch
      else if ch \<le> 65535 then [92, 117] @ hex 4 ch
      else [92, 85] @ hex 8 ch)"

definition repr_str :: "(nat \<Rightarrow> bool) \<Rightarrow> pystr \<Rightarrow> pystr" where
  "repr_str isprintable s =
     (let quote = (if 39 \<in> set s \<and> 34 \<notin> set s then 34 else 39)
      in [quote] @ concat (map (repr_char isprintable quote) s) @ [quote])"

text \<open>\<open>str(xs)\<close> of a list whose elements are already rendered.\<close>

definition repr_list :: "pystr list \<Rightarrow> pystr" where
  "repr_list xs = [91] @ join [44, 32] xs @ [93]"

text \<open>
  A Python \<open>dict\<close> keeps its keys in insertion order and holds every key once. It is
  modelled as an association list; \<open>wf_dict\<close> is the invariant that keys are unique.
  \<open>dict_set d k v\<close> is the statement \<open>d[k] = v\<close>: an existing key keeps its place, a new
  key goes to the end. \<open>dict_merge l r\<close> is the display \<open>{**l, **r}\<close>: the items of
  \<open>l\<close>, then the items of \<open>r\<close> stored one after the other.
\<close>

type_synonym ('k, 'v) dict = "('k \<times> 'v) list"

definition wf_dict :: "('k, 'v) dict \<Rightarrow> bool" where
  "wf_dict d = distinct (map fst d)"

definition dict_keys :: "('k, 'v) dict \<Rightarrow> 'k list" where
  "dict_keys d = map fst d"

definition dict_get :: "('k, 'v) dict \<Rightarrow> 'k \<Rightarrow> 'v option" where
  "dict_get d k = map_of d k"

definition dict_contains :: "'k \<Rightarrow> ('k, 'v) dict \<Rightarrow> bool" where
  "dict_contains k d = (k \<in> set (map fst d))"

fun dict_set :: "('k, 'v) dict \<Rightarrow> 'k \<Rightarrow> 'v \<Rightarrow> ('k, 'v) dict" where
  "dict_set [] k v = [(k, v)]"
| "dict_set ((k', v') # d) k v = (if k' = k then (k, v) # d else (k', v') # dict_set d k v)"

definition dict_merge :: "('k, 'v) dict \<Rightarrow> ('k, 'v) dict \<Rightarrow> ('k, 'v) dict" where
  "dict_merge l r = fold (\<lambda>(k, v) d. dict_set d k v) r l"

section \<open>state.py\<close>

text \<open>
  A \<open>Todo\<close> holds two strings. The \<open>status\<close> is declared as one of three literals,
  which Python does not enforce: it is any string here.
\<close>

record Todo =
  content :: pystr
  status :: pystr

text \<open>
  A message of the conversation: a turn given as a role and a content, or the
  \<open>ToolMessage\<close> a tool answers with, which holds its content and the id of the tool
  call. \<open>msg_content\<close> is the attribute \<open>.content\<close>.
\<close>

datatype message =
  Message pystr (msg_content: pystr)
| ToolMessage (msg_content: pystr) pystr

text \<open>
  \<open>DeepAgentState\<close>: \<open>messages\<close> comes from the base class; \<open>todos\<close> and \<open>files\<close> are
  \<open>NotRequired\<close>, and \<open>None\<close> here is a key that is absent.
\<close>

record DeepAgentState =
  messages :: "message list"
  todos :: "Todo list option"
  files :: "(pystr, pystr) dict option"

text \<open>
  \<open>file_reducer(left, right)\<close>. An argument that is \<open>None\<close> in Python is \<open>None\<close> here.
\<close>

definition file_reducer ::
  "(pystr, pystr) dict option \<Rightarrow> (pystr, pystr) dict option \<Rightarrow> (pystr, pystr) dict option" where
  "file_reducer left right =
     (case left of
        None \<Rightarrow> right
      | Some l \<Rightarrow> (case right of None \<Rightarrow> left | Some r \<Rightarrow> Some (dict_merge l r)))"

text \<open>A \<open>files\<close> value is well formed when it is \<open>None\<close> or a dictionary with unique keys.\<close>

definition wf_files :: "(pystr, pystr) dict option \<Rightarrow> bool" where
  "wf_files f = (case f of None \<Rightarrow> True | Some d \<Rightarrow> wf_dict d)"

text \<open>
  What a tool returns inside a \<open>Command\<close>: the \<open>update\<close> dictionary. Every tool of the
  sources gives \<open>messages\<close>; \<open>files\<close> and \<open>todos\<close> are given by some.
\<close>

record update =
  u_files :: "(pystr, pystr) dict option"
  u_todos :: "Todo list option"
  u_messages :: "message list"


section \<open>file\_tools.py\<close>

text \<open>
  A tool is called with a dictionary holding the state. The model of a tool that assigns
  to that dictionary or to an object it holds returns its final content beside the
  tool's own result. A tool's result is \<open>Inr\<close> of the value it returns or \<open>Inl\<close> of the
  exception it raises; an error reported as text is a returned value.

  \<open>state_get_files\<close> is \<open>state.get("files", {})\<close>. A variable \<open>content\<close> of the
  sources is \<open>content'\<close> here, as \<open>content\<close> is the field of a \<open>Todo\<close>.
\<close>

definition state_get_files :: "DeepAgentState \<Rightarrow> (pystr, pystr) dict" where
  "state_get_files state = (case files state of None \<Rightarrow> [] | Some f \<Rightarrow> f)"

definition ls :: "DeepAgentState \<Rightarrow> pystr list" where
  "ls state = dict_keys (state_get_files state)"

text \<open>
  The loop of \<open>read_file\<close> over \<open>range(start_idx, end_idx)\<close>, with the list
  \<open>result_lines\<close> as accumulator.
\<close>

fun read_loop :: "pystr list \<Rightarrow> int list \<Rightarrow> pystr list \<Rightarrow> py_error + pystr list" where
  "read_loop lines [] result_lines = Inr result_lines"
| "read_loop lines (i # rest) result_lines =
     (case getitem lines i of
        Inl e \<Rightarrow> Inl e
      | Inr line \<Rightarrow>
          read_loop lines rest (result_lines @ [format_6d (i + 1) @ [9] @ take 2000 line]))"

definition read_file :: "pystr \<Rightarrow> DeepAgentState \<Rightarrow> int \<Rightarrow> int \<Rightarrow> py_error + pystr" where
  "read_file file_path state offset limit =
     (let fs = state_get_files state in
      if \<not> dict_contains file_path fs
      then Inr (str ''Error: File '' @ [39] @ file_path @ [39] @ str '' not found'')
      else
        (case dict_get fs file_path of
           None \<Rightarrow> Inl KeyError
         | Some content' \<Rightarrow>
             if content' = []
             then Inr (str ''System reminder: File exists but has empty contents'')
             else
               (let lines = splitlines content';
                    start_idx = offset;
                    end_idx = min (start_idx + limit) (int (length lines))
                in
                  if start_idx \<ge> int (length lines)
                  then Inr (str ''Error: Line offset '' @ str_int offset
                            @ str '' exceeds file length ('' @ str_int (int (length lines))
                            @ str '' lines)'')
                  else
                    (case read_loop lines [start_idx..end_idx - 1] [] of
                       Inl e \<Rightarrow> Inl e
                     | Inr result_lines \<Rightarrow> Inr (join [10] result_lines)))))"






section \<open>todo\_tools.py\<close>

text \<open>
  \<open>write_todos\<close>. Its message holds \<open>str(todos)\<close>, the list of the dictionaries as Python
  displays it. Each dictionary is displayed with its keys in the order it holds them,
  which a \<open>Todo\<close> record does not keep: the display of the list is the parameter
  \<open>str_todos\<close>.
\<close>

definition write_todos :: "(Todo list \<Rightarrow> pystr) \<Rightarrow> Todo list \<Rightarrow> pystr \<Rightarrow> update" where
  "write_todos str_todos new_todos tool_call_id =
     \<lparr>u_files = None, u_todos = Some new_todos,
      u_messages =
        [ToolMessage (str ''Updated todo list to '' @ str_todos new_todos) tool_call_id]\<rparr>"





section \<open>task\_tool.py\<close>

text \<open>
  A compiled sub-agent is known by its \<open>invoke\<close>: from the state it is given to the state
  it ends in, or to the fault it raises. \<open>agents\<close> is the dictionary of the enclosing
  \<open>_create_task_tool\<close>, from each sub-agent's name to its compiled agent.

  \<open>task\<close> returns a text for a name that is not registered. Otherwise it overwrites
  \<open>messages\<close> in the dictionary it was called with, invokes the sub-agent on that
  dictionary, and returns a \<open>Command\<close>. The first component of the model's result is the
  dictionary as the call leaves it.
\<close>

type_synonym agent = "DeepAgentState \<Rightarrow> py_error + DeepAgentState"

datatype task_result = Text pystr | Command update

definition task ::
  "(nat \<Rightarrow> bool) \<Rightarrow> (pystr, agent) dict \<Rightarrow> pystr \<Rightarrow> pystr \<Rightarrow> DeepAgentState \<Rightarrow> pystr
     \<Rightarrow> DeepAgentState \<times> (py_error + task_result)" where
  "task isprintable agents description subagent_type state tool_call_id =
     (if \<not> dict_contains subagent_type agents
      then
        (let allowed = map (\<lambda>k. [96] @ k @ [96]) (dict_keys agents) in
         (state,
          Inr (Text (str ''Error: invoked agent of type '' @ subagent_type
                     @ str '', the only allowed types are ''
                     @ repr_list (map (repr_str isprintable) allowed)))))
      else
        (case dict_get agents subagent_type of
           None \<Rightarrow> (state, Inl KeyError)
         | Some sub_agent \<Rightarrow>
             (let state' = state\<lparr>messages := [Message (str ''user'') description]\<rparr> in
              case sub_agent state' of
                Inl e \<Rightarrow> (state', Inl e)
              | Inr result \<Rightarrow>
                  (case getitem (messages result) (- 1) of
                     Inl e \<Rightarrow> (state', Inl e)
                   | Inr m \<Rightarrow>
                       (state',
                        Inr (Command
                          \<lparr>u_files = Some (state_get_files result), u_todos = None,
                           u_messages = [ToolMessage (msg_content m) tool_call_id]\<rparr>))))))"

section \<open>Notions used in the statements\<close>



text \<open>
  A text of printable ASCII characters other than the apostrophe and the backslash:
  \<open>repr\<close> puts it between apostrophes and changes nothing in it.
\<close>

definition plain_text :: "pystr \<Rightarrow> bool" where
  "plain_text s = (\<forall>c\<in>set s. 32 \<le> c \<and> c < 127 \<and> c \<noteq> 39 \<and> c \<noteq> 92)"

text \<open>
  A sub-agent and a parent state for a concrete run of \<open>task\<close>: the sub-agent appends one
  answer to the messages it is given and ends with one file of its own.
\<close>

definition example_agent :: agent where
  "example_agent s =
     Inr (s\<lparr>messages := messages s @ [Message (str ''assistant'') [100]],
            files := Some [([102], [49])]\<rparr>)"

definition example_parent :: DeepAgentState where
  "example_parent =
     \<lparr>messages = [Message (str ''user'') [104], Message (str ''assistant'') [105]],
      todos = Some [\<lparr>content = [116], status = str ''in_progress''\<rparr>],
      files = Some [([103], [50])]\<rparr>"

section \<open>Dictionaries: facts\<close>

lemma dict_set_keys:
  "map fst (dict_set d k v) = (if k \<in> set (map fst d) then map fst d else map fst d @ [k])"
  by (induction d) force+

lemma dict_set_map_of: "map_of (dict_set d k v) = (map_of d)(k \<mapsto> v)"
  by (induction d) auto

lemma dict_set_wf: "wf_dict d \<Longrightarrow> wf_dict (dict_set d k v)"
  by (simp add: wf_dict_def dict_set_keys)

lemma dict_merge_Nil: "dict_merge l [] = l"
  by (simp add: dict_merge_def)

lemma dict_merge_Cons: "dict_merge l ((k, v) # r) = dict_merge (dict_set l k v) r"
  by (simp add: dict_merge_def)

lemma dict_merge_snoc: "dict_merge l (r @ [(k, v)]) = dict_set (dict_merge l r) k v"
  by (simp add: dict_merge_def)

lemma dict_merge_key_set: "set (map fst (dict_merge l r)) = set (map fst l) \<union> set (map fst r)"
proof (induction r arbitrary: l)
  case Nil
  show ?case by (simp add: dict_merge_Nil)
next
  case (Cons p r)
  obtain k v where p: "p = (k, v)" by (cases p)
  show ?case
    unfolding p dict_merge_Cons Cons.IH
    by (simp add: dict_set_keys) blast
qed

lemma dict_merge_wf: "wf_dict l \<Longrightarrow> wf_dict (dict_merge l r)"
proof (induction r arbitrary: l)
  case Nil
  then show ?case by (simp add: dict_merge_Nil)
next
  case (Cons p r)
  obtain k v where p: "p = (k, v)" by (cases p)
  show ?case
    unfolding p dict_merge_Cons
    by (rule Cons.IH) (rule dict_set_wf [OF Cons.prems])
qed

lemma dict_merge_map_of:
  "distinct (map fst r) \<Longrightarrow> map_of (dict_merge l r) = map_of l ++ map_of r"
proof (induction r arbitrary: l)
  case Nil
  show ?case by (simp add: dict_merge_Nil)
next
  case (Cons p r)
  obtain k v where p: "p = (k, v)" by (cases p)
  from Cons.prems have d: "distinct (map fst r)" and k: "k \<notin> set (map fst r)"
    by (simp_all add: p)
  from k have none: "map_of r k = None"
    by (simp add: map_of_eq_None_iff)
  have "map_of (dict_merge l (p # r)) = (map_of l)(k \<mapsto> v) ++ map_of r"
    unfolding p dict_merge_Cons Cons.IH [OF d] dict_set_map_of ..
  also have "\<dots> = map_of l ++ map_of (p # r)"
    using none by (auto simp: p fun_eq_iff map_add_def split: option.splits)
  finally show ?case .
qed

lemma dict_set_idem: "dict_set (dict_set d k v') k v = dict_set d k v"
  by (induction d) auto

lemma dict_set_commute:
  "k \<noteq> k' \<Longrightarrow> k \<in> set (map fst d) \<Longrightarrow>
   dict_set (dict_set d k v) k' v' = dict_set (dict_set d k' v') k v"
proof (induction d)
  case Nil
  then show ?case by simp
next
  case (Cons p d)
  obtain a b where p: "p = (a, b)" by (cases p)
  show ?case
  proof (cases "a = k")
    case True
    with Cons.prems(1) show ?thesis by (simp add: p)
  next
    case False
    with Cons.prems have "k \<in> set (map fst d)" by (simp add: p)
    from Cons.IH [OF Cons.prems(1) this] False show ?thesis by (simp add: p)
  qed
qed

lemma dict_set_merge_present:
  "k \<in> set (map fst a) \<Longrightarrow> k \<notin> set (map fst b) \<Longrightarrow>
   dict_set (dict_merge a b) k v = dict_merge (dict_set a k v) b"
proof (induction b arbitrary: a)
  case Nil
  show ?case by (simp add: dict_merge_Nil)
next
  case (Cons p b)
  obtain k' v' where p: "p = (k', v')" by (cases p)
  from Cons.prems have ne: "k \<noteq> k'" and nb: "k \<notin> set (map fst b)"
    by (auto simp: p)
  have in': "k \<in> set (map fst (dict_set a k' v'))"
    using Cons.prems(1) by (simp add: dict_set_keys)
  have "dict_set (dict_merge a (p # b)) k v = dict_merge (dict_set (dict_set a k' v') k v) b"
    unfolding p dict_merge_Cons by (rule Cons.IH [OF in' nb])
  also have "dict_set (dict_set a k' v') k v = dict_set (dict_set a k v) k' v'"
    by (rule dict_set_commute [symmetric, OF ne Cons.prems(1)])
  finally show ?case by (simp add: p dict_merge_Cons)
qed

lemma dict_merge_set_right:
  "wf_dict b \<Longrightarrow> dict_merge a (dict_set b k v) = dict_set (dict_merge a b) k v"
proof (induction b arbitrary: a)
  case Nil
  show ?case by (simp add: dict_merge_def)
next
  case (Cons p b)
  obtain k' v' where p: "p = (k', v')" by (cases p)
  from Cons.prems have wf: "wf_dict b" and nk: "k' \<notin> set (map fst b)"
    by (simp_all add: wf_dict_def p)
  show ?case
  proof (cases "k' = k")
    case True
    have "dict_set (dict_merge a (p # b)) k v = dict_set (dict_merge (dict_set a k v') b) k v"
      by (simp add: p True dict_merge_Cons)
    also have "\<dots> = dict_merge (dict_set (dict_set a k v') k v) b"
      using nk by (intro dict_set_merge_present) (simp_all add: True dict_set_keys)
    also have "\<dots> = dict_merge a (dict_set (p # b) k v)"
      by (simp add: p True dict_merge_Cons dict_set_idem)
    finally show ?thesis by simp
  next
    case False
    then show ?thesis
      by (simp add: p dict_merge_Cons Cons.IH [OF wf])
  qed
qed

lemma dict_merge_assoc:
  "wf_dict b \<Longrightarrow> dict_merge (dict_merge a b) c = dict_merge a (dict_merge b c)"
proof (induction c rule: rev_induct)
  case Nil
  show ?case by (simp add: dict_merge_Nil)
next
  case (snoc p c)
  obtain k v where p: "p = (k, v)" by (cases p)
  have wf: "wf_dict (dict_merge b c)" by (rule dict_merge_wf [OF snoc.prems])
  show ?case
    by (simp add: p dict_merge_snoc snoc.IH [OF snoc.prems] dict_merge_set_right [OF wf])
qed

lemma dict_contains_iff: "dict_contains k d \<longleftrightarrow> dict_get d k \<noteq> None"
  by (simp add: dict_contains_def dict_get_def map_of_eq_None_iff)

lemma dict_merge_get:
  "wf_dict r \<Longrightarrow>
   dict_get (dict_merge l r) k = (if dict_contains k r then dict_get r k else dict_get l k)"
proof -
  assume "wf_dict r"
  then have eq: "map_of (dict_merge l r) k = (map_of l ++ map_of r) k"
    by (simp only: wf_dict_def dict_merge_map_of)
  show ?thesis
  proof (cases "map_of r k")
    case None
    then have "\<not> dict_contains k r"
      by (simp add: dict_contains_def map_of_eq_None_iff)
    with None eq show ?thesis
      by (simp add: dict_get_def map_add_def)
  next
    case (Some v)
    then have "(k, v) \<in> set r" by (rule map_of_SomeD)
    then have "dict_contains k r"
      unfolding dict_contains_def by force
    with Some eq show ?thesis
      by (simp add: dict_get_def map_add_def)
  qed
qed




section \<open>The merge rule of \<open>files\<close>\<close>

lemma file_reducer_None_left: "file_reducer None x = x"
  by (simp add: file_reducer_def)

lemma file_reducer_None_right: "file_reducer x None = x"
  by (simp add: file_reducer_def split: option.splits)

lemma file_reducer_wf: "wf_files x \<Longrightarrow> wf_files y \<Longrightarrow> wf_files (file_reducer x y)"
  by (auto simp: file_reducer_def wf_files_def dict_merge_wf split: option.splits)

lemma file_reducer_assoc:
  "wf_files b \<Longrightarrow> file_reducer (file_reducer a b) c = file_reducer a (file_reducer b c)"
  by (auto simp: file_reducer_def wf_files_def dict_merge_assoc split: option.splits)

lemma foldl_file_reducer_wf:
  "wf_files a \<Longrightarrow> \<forall>u\<in>set us. wf_files u \<Longrightarrow> wf_files (foldl file_reducer a us)"
  by (induction us arbitrary: a) (simp_all add: file_reducer_wf)

lemma foldl_file_reducer:
  "\<forall>u\<in>set us. wf_files u \<Longrightarrow>
   foldl file_reducer a us = file_reducer a (foldl file_reducer None us)"
proof (induction us rule: rev_induct)
  case Nil
  show ?case by (simp add: file_reducer_None_right)
next
  case (snoc u us)
  from snoc.prems have all: "\<forall>u\<in>set us. wf_files u" by simp
  have wf: "wf_files (foldl file_reducer None us)"
    by (rule foldl_file_reducer_wf [OF _ all]) (simp add: wf_files_def)
  have "foldl file_reducer a (us @ [u]) = file_reducer (foldl file_reducer a us) u"
    by simp
  also have "\<dots> = file_reducer (file_reducer a (foldl file_reducer None us)) u"
    by (rule arg_cong [where f = "\<lambda>x. file_reducer x u", OF snoc.IH [OF all]])
  also have "\<dots> = file_reducer a (file_reducer (foldl file_reducer None us) u)"
    by (rule file_reducer_assoc [OF wf])
  also have "\<dots> = file_reducer a (foldl file_reducer None (us @ [u]))"
    by simp
  finally show ?case .
qed

text \<open>
  Claim C1. \<open>file_reducer\<close> returns the incoming files when the base is \<open>None\<close> and the
  base when the incoming files are \<open>None\<close>. For two dictionaries it returns a dictionary
  whose keys are the keys of both; a key of the incoming dictionary has the incoming
  value, and a key of the base alone keeps the base's value.
\<close>

theorem file_reducer_contract:
  assumes "wf_dict l" and "wf_dict r"
  shows "file_reducer None incoming = incoming
       \<and> file_reducer base None = base
       \<and> (\<exists>m. file_reducer (Some l) (Some r) = Some m
              \<and> wf_dict m
              \<and> set (dict_keys m) = set (dict_keys l) \<union> set (dict_keys r)
              \<and> (\<forall>k. dict_contains k r \<longrightarrow> dict_get m k = dict_get r k)
              \<and> (\<forall>k. dict_contains k l \<and> \<not> dict_contains k r \<longrightarrow> dict_get m k = dict_get l k))"
proof -
  have m: "file_reducer (Some l) (Some r) = Some (dict_merge l r)"
    by (simp add: file_reducer_def)
  have keys: "set (dict_keys (dict_merge l r)) = set (dict_keys l) \<union> set (dict_keys r)"
    unfolding dict_keys_def by (rule dict_merge_key_set)
  have wf: "wf_dict (dict_merge l r)"
    by (rule dict_merge_wf [OF assms(1)])
  show ?thesis
    unfolding m
    by (simp add: file_reducer_None_left file_reducer_None_right keys wf
        dict_merge_get [OF assms(2)])
qed

theorem file_reducer_contract_witness:
  "wf_dict [([97::nat], [49::nat]), ([98], [50])] \<and> wf_dict [([98::nat], [51::nat]), ([99], [52])]
   \<and> file_reducer (Some [([97], [49]), ([98], [50])]) (Some [([98], [51]), ([99], [52])])
       = Some [([97], [49]), ([98], [51]), ([99], [52])]
   \<and> file_reducer None (Some [([98], [51])]) = Some [([98], [51])]
   \<and> file_reducer (Some [([97], [49])]) None = Some [([97], [49])]"
proof -
  have l: "wf_dict [([97::nat], [49::nat]), ([98], [50])]"
    and r: "wf_dict [([98::nat], [51::nat]), ([99], [52])]"
    by (simp_all add: wf_dict_def)
  show ?thesis
    using l r
      file_reducer_contract [OF l r, of "Some [([98], [51])]" "Some [([97], [49])]"]
    by (simp add: file_reducer_def dict_merge_def)
qed

text \<open>
  Claim C8. Merging \<open>B\<close> into \<open>A\<close> and then \<open>C\<close> into the result is merging into \<open>A\<close> the
  merge of \<open>B\<close> and \<open>C\<close>; and merging a sequence of updates into \<open>A\<close> one after the
  other, from the left, is merging into \<open>A\<close> the one value the updates fold to. The
  equalities are between dictionaries with their order of keys.
\<close>

theorem file_reducer_sequential:
  assumes "wf_files B" and "\<forall>u\<in>set us. wf_files u"
  shows "file_reducer (file_reducer A B) C = file_reducer A (file_reducer B C)
       \<and> foldl file_reducer A us = file_reducer A (foldl file_reducer None us)"
proof
  show "file_reducer (file_reducer A B) C = file_reducer A (file_reducer B C)"
    by (rule file_reducer_assoc [OF assms(1)])
  show "foldl file_reducer A us = file_reducer A (foldl file_reducer None us)"
    by (rule foldl_file_reducer [OF assms(2)])
qed

theorem file_reducer_sequential_witness:
  "wf_files (Some [([98], [50])]) \<and> wf_files None
   \<and> file_reducer (file_reducer (Some [([97], [49])]) (Some [([98], [50])])) (Some [([97], [51])])
       = file_reducer (Some [([97], [49])]) (file_reducer (Some [([98], [50])]) (Some [([97], [51])]))
   \<and> foldl file_reducer (Some [([97], [49])]) [Some [([98], [50])], None, Some [([97], [51])]]
       = Some [([97], [51]), ([98], [50])]"
proof -
  have b: "wf_files (Some [([98], [50])])"
    by (simp add: wf_files_def wf_dict_def)
  have us: "\<forall>u\<in>set [Some [([98], [50])], None, Some [([97], [51])]]. wf_files u"
    by (simp add: wf_files_def wf_dict_def)
  show ?thesis
    using b
      file_reducer_sequential [OF b us, of "Some [([97], [49])]" "Some [([97], [51])]"]
    by (simp add: file_reducer_def dict_merge_def wf_files_def)
qed

section \<open>Reading and writing files\<close>



lemma digits_nonempty: "digits n \<noteq> []"
  by (subst digits.simps) simp

lemma digits_range: "c \<in> set (digits n) \<Longrightarrow> 48 \<le> c \<and> c \<le> 57"
proof (induction n arbitrary: c rule: digits.induct)
  case (1 n)
  show ?case
  proof (cases "n < 10")
    case True
    with "1.prems" show ?thesis by (subst (asm) digits.simps) simp
  next
    case False
    from "1.prems" have "c \<in> set (digits (n div 10)) \<or> c = 48 + n mod 10"
      by (subst (asm) digits.simps) (auto simp: False)
    then show ?thesis
    proof
      assume "c \<in> set (digits (n div 10))"
      with "1.IH" [OF False] show ?thesis .
    next
      assume "c = 48 + n mod 10"
      moreover have "n mod 10 < 10" by simp
      ultimately show ?thesis by linarith
    qed
  qed
qed

lemma str_int_nonempty: "str_int i \<noteq> []"
  by (simp add: str_int_def digits_nonempty)

lemma format_6d_nonempty: "format_6d i \<noteq> []"
  by (simp add: format_6d_def str_int_nonempty)

lemma hd_str_int: "hd (str_int i) = 45 \<or> (48 \<le> hd (str_int i) \<and> hd (str_int i) \<le> 57)"
proof (cases "i < 0")
  case True
  then show ?thesis by (simp add: str_int_def)
next
  case False
  have "hd (digits (nat i)) \<in> set (digits (nat i))"
    by (rule hd_in_set [OF digits_nonempty])
  from digits_range [OF this] False show ?thesis by (simp add: str_int_def)
qed

lemma hd_format_6d:
  "hd (format_6d i) = 32 \<or> hd (format_6d i) = 45
   \<or> (48 \<le> hd (format_6d i) \<and> hd (format_6d i) \<le> 57)"
proof (cases "6 - length (str_int i)")
  case 0
  then have "format_6d i = str_int i" by (simp add: format_6d_def)
  with hd_str_int [of i] show ?thesis by auto
next
  case (Suc k)
  then show ?thesis by (simp add: format_6d_def)
qed

lemma join_Cons: "\<exists>t. join sep (x # xs) = x @ t"
  by (cases xs) simp_all


lemma getitem_out_of_range:
  "i < - int (length xs) \<or> int (length xs) \<le> i \<Longrightarrow> getitem xs i = Inl IndexError"
  by (auto simp: getitem_def)


lemma read_loop_shape:
  "read_loop lines is acc = Inr r \<Longrightarrow>
   \<exists>rs. r = acc @ rs \<and> (\<forall>x\<in>set rs. \<exists>j t. x = format_6d j @ t)"
proof (induction "is" arbitrary: acc)
  case Nil
  then show ?case by simp
next
  case (Cons i "is")
  from Cons.prems obtain line where g: "getitem lines i = Inr line"
    and r: "read_loop lines is (acc @ [format_6d (i + 1) @ [9] @ take 2000 line]) = Inr r"
    by (auto split: sum.splits)
  from Cons.IH [OF r] obtain rs where
    rs: "r = (acc @ [format_6d (i + 1) @ [9] @ take 2000 line]) @ rs"
    "\<forall>x\<in>set rs. \<exists>j t. x = format_6d j @ t"
    by blast
  have "r = acc @ ((format_6d (i + 1) @ [9] @ take 2000 line) # rs)"
    using rs(1) by simp
  moreover have "\<forall>x\<in>set ((format_6d (i + 1) @ [9] @ take 2000 line) # rs). \<exists>j t. x = format_6d j @ t"
    using rs(2) by auto
  ultimately show ?case by blast
qed


lemma state_get_files_None: "files s = None \<Longrightarrow> state_get_files s = []"
  by (simp add: state_get_files_def)


lemma read_file_absent:
  "\<not> dict_contains file_path (state_get_files state) \<Longrightarrow>
   read_file file_path state offset limit
     = Inr (str ''Error: File '' @ [39] @ file_path @ [39] @ str '' not found'')"
  by (simp add: read_file_def)

lemma read_file_empty:
  "dict_get (state_get_files state) file_path = Some [] \<Longrightarrow>
   read_file file_path state offset limit
     = Inr (str ''System reminder: File exists but has empty contents'')"
  by (simp add: read_file_def dict_contains_iff)

lemma read_file_lines:
  assumes "dict_get (state_get_files state) file_path = Some content'" and "content' \<noteq> []"
  shows "read_file file_path state offset limit =
     (if int (length (splitlines content')) \<le> offset
      then Inr (str ''Error: Line offset '' @ str_int offset @ str '' exceeds file length (''
                @ str_int (int (length (splitlines content'))) @ str '' lines)'')
      else case read_loop (splitlines content')
                  [offset..min (offset + limit) (int (length (splitlines content'))) - 1] [] of
             Inl e \<Rightarrow> Inl e
           | Inr result_lines \<Rightarrow> Inr (join [10] result_lines))"
  using assms by (simp add: read_file_def dict_contains_iff Let_def)





lemma join_concat:
  "join sep xs = (if xs = [] then [] else concat (map (\<lambda>l. l @ sep) (butlast xs)) @ last xs)"
  by (induction sep xs rule: join.induct) simp_all



lemma not_found_neq:
  assumes "r = [] \<or> hd r \<noteq> 69 \<or> r ! 7 \<noteq> 70"
  shows "r \<noteq> str ''Error: File '' @ [39] @ file_path @ [39] @ str '' not found''"
proof
  assume eq: "r = str ''Error: File '' @ [39] @ file_path @ [39] @ str '' not found''"
  have "r \<noteq> []" "hd r = 69" "r ! 7 = 70"
    unfolding eq by (simp_all add: str_def)
  with assms show False by simp
qed

lemma join_rendered:
  assumes "\<forall>x\<in>set rs. \<exists>j t. x = format_6d j @ t"
  shows "join [10] rs = [] \<or> hd (join [10] rs) \<noteq> 69"
proof (cases rs)
  case Nil
  then show ?thesis by simp
next
  case (Cons x xs)
  with assms obtain j t where x: "x = format_6d j @ t" by auto
  obtain t' where "join [10] (x # xs) = x @ t'" using join_Cons by blast
  then have "hd (join [10] rs) = hd (format_6d j)"
    by (simp add: Cons x format_6d_nonempty)
  with hd_format_6d [of j] show ?thesis by auto
qed

text \<open>
  Claim C7. \<open>read_file\<close> returns the text that the file was not found exactly when the
  path is not a key of \<open>files\<close>; and for a key whose content is the empty string it
  returns the fixed notice of an empty file, whatever the offset and the limit.
\<close>

theorem read_file_taxonomy:
  "(read_file file_path state offset limit
      = Inr (str ''Error: File '' @ [39] @ file_path @ [39] @ str '' not found'')
    \<longleftrightarrow> \<not> dict_contains file_path (state_get_files state))
   \<and> (dict_get (state_get_files state) file_path = Some [] \<longrightarrow>
        read_file file_path state offset limit
          = Inr (str ''System reminder: File exists but has empty contents''))"
proof (intro conjI iffI impI)
  assume "\<not> dict_contains file_path (state_get_files state)"
  then show "read_file file_path state offset limit
      = Inr (str ''Error: File '' @ [39] @ file_path @ [39] @ str '' not found'')"
    by (rule read_file_absent)
next
  assume "dict_get (state_get_files state) file_path = Some []"
  then show "read_file file_path state offset limit
      = Inr (str ''System reminder: File exists but has empty contents'')"
    by (rule read_file_empty)
next
  assume nf: "read_file file_path state offset limit
      = Inr (str ''Error: File '' @ [39] @ file_path @ [39] @ str '' not found'')"
  show "\<not> dict_contains file_path (state_get_files state)"
  proof
    assume "dict_contains file_path (state_get_files state)"
    then obtain c where c: "dict_get (state_get_files state) file_path = Some c"
      by (auto simp: dict_contains_iff)
    show False
    proof (cases "c = []")
      case True
      with c have "read_file file_path state offset limit
          = Inr (str ''System reminder: File exists but has empty contents'')"
        by (simp add: read_file_empty)
      with nf have "str ''System reminder: File exists but has empty contents''
          = str ''Error: File '' @ [39] @ file_path @ [39] @ str '' not found''"
        by simp
      moreover have "hd (str ''System reminder: File exists but has empty contents'') \<noteq> 69"
        by (simp add: str_def)
      ultimately show False using not_found_neq by blast
    next
      case False
      note lines = read_file_lines [OF c False, of offset limit]
      show False
      proof (cases "int (length (splitlines c)) \<le> offset")
        case True
        with lines nf have "str ''Error: Line offset '' @ str_int offset
            @ str '' exceeds file length ('' @ str_int (int (length (splitlines c)))
            @ str '' lines)''
          = str ''Error: File '' @ [39] @ file_path @ [39] @ str '' not found''"
          by simp
        moreover have "(str ''Error: Line offset '' @ str_int offset
            @ str '' exceeds file length ('' @ str_int (int (length (splitlines c)))
            @ str '' lines)'') ! 7 \<noteq> 70"
          by (simp add: str_def)
        ultimately show False using not_found_neq by blast
      next
        case off: False
        with lines nf obtain r where
          r: "read_loop (splitlines c)
                [offset..min (offset + limit) (int (length (splitlines c))) - 1] [] = Inr r"
          and j: "join [10] r = str ''Error: File '' @ [39] @ file_path @ [39] @ str '' not found''"
          by (auto split: sum.splits)
        from read_loop_shape [OF r] have "\<forall>x\<in>set r. \<exists>j t. x = format_6d j @ t"
          by simp
        from join_rendered [OF this] j show False using not_found_neq by metis
      qed
    qed
  qed
qed

lemma replicate_numeral: "replicate (numeral k) x = x # replicate (pred_numeral k) x"
  by (simp add: numeral_eq_Suc)

lemmas read_file_eval =
  read_file_def state_get_files_def dict_contains_def dict_get_def splitlines_def
  is_line_boundary_def getitem_def upto.simps format_6d_def str_int_def digits.simps str_def
  replicate_numeral

text \<open>
  Claim C5. \<open>read_file\<close> does not always return a text: on a file of one line, the offset
  \<open>-2\<close> makes the loop index the list of lines at \<open>-2\<close>, which raises \<open>IndexError\<close>.
\<close>

theorem read_file_raises:
  "read_file [102] \<lparr>messages = [], todos = None, files = Some [([102], [97])]\<rparr> (- 2) 2000
     = Inl IndexError"
  by (simp add: read_file_eval)



theorem read_file_taxonomy_witness:
  "\<not> dict_contains [103] (state_get_files \<lparr>messages = [], todos = None,
                                                files = Some [([101], [])]\<rparr>)
   \<and> read_file [103] \<lparr>messages = [], todos = None, files = Some [([101], [])]\<rparr> 0 2000
       = Inr (str ''Error: File '' @ [39, 103, 39] @ str '' not found'')
   \<and> dict_get (state_get_files \<lparr>messages = [], todos = None,
                                    files = Some [([101], [])]\<rparr>) [101] = Some []
   \<and> read_file [101] \<lparr>messages = [], todos = None, files = Some [([101], [])]\<rparr> 5 2000
       = Inr (str ''System reminder: File exists but has empty contents'')"
proof -
  let ?st = "\<lparr>messages = [], todos = None, files = Some [([101], [])]\<rparr>"
  have a: "\<not> dict_contains [103] (state_get_files ?st)"
    by (simp add: dict_contains_def state_get_files_def)
  have e: "dict_get (state_get_files ?st) [101] = Some []"
    by (simp add: dict_get_def state_get_files_def)
  show ?thesis
    using a e read_file_taxonomy [of "[103]" ?st 0 2000] read_file_taxonomy [of "[101]" ?st 5 2000]
    by simp
qed











section \<open>Reading todos\<close>









section \<open>Delegation\<close>

lemma repr_char_plain:
  "32 \<le> c \<and> c < 127 \<and> c \<noteq> 39 \<and> c \<noteq> 92 \<Longrightarrow> repr_char isprintable 39 c = [c]"
  by (simp add: repr_char_def)

lemma repr_str_plain:
  assumes "plain_text s"
  shows "repr_str isprintable s = [39] @ s @ [39]"
proof -
  from assms have q: "39 \<notin> set s" by (auto simp: plain_text_def)
  from assms have m: "map (repr_char isprintable 39) s = map (\<lambda>c. [c]) s"
    by (intro map_cong) (simp_all add: plain_text_def repr_char_plain)
  have "concat (map (\<lambda>c. [c]) s) = s"
    by (induction s) simp_all
  then have "concat (map (repr_char isprintable 39) s) = s"
    by (simp only: m)
  with q show ?thesis by (simp add: repr_str_def)
qed

lemma sublist_join: "x \<in> set xs \<Longrightarrow> sublist x (join sep xs)"
proof (induction sep xs rule: join.induct)
  case (1 sep)
  then show ?case by simp
next
  case (2 sep y)
  then show ?case by simp
next
  case (3 sep y z zs)
  show ?case
  proof (cases "x = y")
    case True
    then show ?thesis by (simp add: sublist_append)
  next
    case False
    with "3.prems" have "x \<in> set (z # zs)" by simp
    from "3.IH" [OF this] show ?thesis by (simp add: sublist_append)
  qed
qed

lemma sublist_repr_list: "x \<in> set xs \<Longrightarrow> sublist x (repr_list xs)"
  by (simp add: repr_list_def sublist_append sublist_join sublist_Cons_right)

lemma sublist_prepend:
  assumes "sublist xs ys"
  shows "sublist xs (ps @ ys)"
proof -
  from assms obtain a b where "ys = a @ xs @ b" by (auto simp: sublist_def)
  then have "ps @ ys = (ps @ a) @ xs @ b" by simp
  then show ?thesis unfolding sublist_def by blast
qed

text \<open>
  Claim C3. For a name that is not a key of \<open>agents\<close>, \<open>task\<close> returns a text and no
  \<open>Command\<close>, and leaves the dictionary it was called with as it was. The text ends with
  the list of the registered names in the order of the registry: between brackets,
  separated by a comma and a space, each name between backquotes and rendered by
  \<open>repr\<close>. So every key of \<open>agents\<close> occurs in the text in that form, and a key of plain
  characters occurs in it as it is.
\<close>

theorem task_unknown_subagent:
  assumes "\<not> dict_contains subagent_type agents"
  shows "\<exists>msg names.
       task isprintable agents description subagent_type state tool_call_id
         = (state, Inr (Text msg))
     \<and> names = map (\<lambda>p. repr_str isprintable ([96] @ fst p @ [96])) agents
     \<and> msg = str ''Error: invoked agent of type '' @ subagent_type
             @ str '', the only allowed types are '' @ [91]
             @ (if names = [] then []
                else concat (map (\<lambda>n. n @ [44, 32]) (butlast names)) @ last names)
             @ [93]
     \<and> (\<forall>k. dict_contains k agents \<longrightarrow>
            sublist (repr_str isprintable ([96] @ k @ [96])) msg)
     \<and> (\<forall>k. dict_contains k agents \<and> plain_text k \<longrightarrow> sublist k msg)"
proof -
  let ?names = "map (\<lambda>p. repr_str isprintable ([96] @ fst p @ [96])) agents"
  let ?list = "[91] @ (if ?names = [] then []
                else concat (map (\<lambda>n. n @ [44, 32]) (butlast ?names)) @ last ?names) @ [93]"
  let ?msg = "str ''Error: invoked agent of type '' @ subagent_type
             @ str '', the only allowed types are '' @ ?list"
  have n: "map (repr_str isprintable) (map (\<lambda>k. [96] @ k @ [96]) (dict_keys agents)) = ?names"
    by (simp add: dict_keys_def comp_def)
  have rl: "repr_list ?names = ?list"
    by (simp only: repr_list_def join_concat [of "[44, 32]" ?names])
  have "task isprintable agents description subagent_type state tool_call_id
         = (state, Inr (Text (str ''Error: invoked agent of type '' @ subagent_type
             @ str '', the only allowed types are ''
             @ repr_list (map (repr_str isprintable)
                 (map (\<lambda>k. [96] @ k @ [96]) (dict_keys agents))))))"
    using assms by (simp add: task_def Let_def)
  then have t: "task isprintable agents description subagent_type state tool_call_id
         = (state, Inr (Text ?msg))"
    by (simp only: n rl)
  have r: "sublist (repr_str isprintable ([96] @ k @ [96])) ?msg" if "dict_contains k agents" for k
  proof -
    from that obtain p where "p \<in> set agents" and "k = fst p"
      by (auto simp: dict_contains_def)
    then have "repr_str isprintable ([96] @ k @ [96]) \<in> set ?names" by force
    then have "sublist (repr_str isprintable ([96] @ k @ [96])) (repr_list ?names)"
      by (rule sublist_repr_list)
    then have "sublist (repr_str isprintable ([96] @ k @ [96])) ?list"
      by (simp only: rl)
    then have "sublist (repr_str isprintable ([96] @ k @ [96]))
        (str '', the only allowed types are '' @ ?list)"
      by (rule sublist_prepend)
    then have "sublist (repr_str isprintable ([96] @ k @ [96]))
        (subagent_type @ str '', the only allowed types are '' @ ?list)"
      by (rule sublist_prepend)
    then show ?thesis
      by (rule sublist_prepend)
  qed
  have p: "sublist k ?msg" if "dict_contains k agents \<and> plain_text k" for k
  proof -
    from that have "plain_text ([96] @ k @ [96])" by (simp add: plain_text_def)
    then have "repr_str isprintable ([96] @ k @ [96]) = [39] @ ([96] @ k @ [96]) @ [39]"
      by (rule repr_str_plain)
    then have "sublist k (repr_str isprintable ([96] @ k @ [96]))"
      by (simp add: sublist_Cons_right sublist_append)
    moreover from that have "sublist (repr_str isprintable ([96] @ k @ [96])) ?msg"
      by (intro r) simp
    ultimately show ?thesis by (rule sublist_order.order_trans)
  qed
  have "task isprintable agents description subagent_type state tool_call_id
         = (state, Inr (Text ?msg))
     \<and> ?names = map (\<lambda>p. repr_str isprintable ([96] @ fst p @ [96])) agents
     \<and> ?msg = str ''Error: invoked agent of type '' @ subagent_type
             @ str '', the only allowed types are '' @ [91]
             @ (if ?names = [] then []
                else concat (map (\<lambda>n. n @ [44, 32]) (butlast ?names)) @ last ?names)
             @ [93]
     \<and> (\<forall>k. dict_contains k agents \<longrightarrow>
            sublist (repr_str isprintable ([96] @ k @ [96])) ?msg)
     \<and> (\<forall>k. dict_contains k agents \<and> plain_text k \<longrightarrow> sublist k ?msg)"
  proof (intro conjI allI impI)
    show "task isprintable agents description subagent_type state tool_call_id
         = (state, Inr (Text ?msg))" by (rule t)
  next
    show "?names = map (\<lambda>p. repr_str isprintable ([96] @ fst p @ [96])) agents" by (rule refl)
  next
    show "?msg = str ''Error: invoked agent of type '' @ subagent_type
             @ str '', the only allowed types are '' @ [91]
             @ (if ?names = [] then []
                else concat (map (\<lambda>n. n @ [44, 32]) (butlast ?names)) @ last ?names)
             @ [93]" by (rule refl)
  next
    fix k assume "dict_contains k agents"
    then show "sublist (repr_str isprintable ([96] @ k @ [96])) ?msg" by (rule r)
  next
    fix k assume "dict_contains k agents \<and> plain_text k"
    then show "sublist k ?msg" by (rule p)
  qed
  then show ?thesis by (intro exI)
qed

theorem task_unknown_subagent_witness:
  "\<not> dict_contains [120] [([97 :: nat], example_agent), ([98], example_agent)]
   \<and> dict_contains [97] [([97 :: nat], example_agent), ([98], example_agent)] \<and> plain_text [97]
   \<and> dict_contains [98] [([97 :: nat], example_agent), ([98], example_agent)] \<and> plain_text [98]
   \<and> task (\<lambda>c. True) [([97 :: nat], example_agent), ([98], example_agent)] [100] [120] example_parent [116]
       = (example_parent, Inr (Text (str ''Error: invoked agent of type x, the only allowed types are [''
          @ [39, 96, 97, 96, 39, 44, 32, 39, 96, 98, 96, 39] @ str '']'')))
   \<and> sublist [97] (str ''Error: invoked agent of type x, the only allowed types are [''
          @ [39, 96, 97, 96, 39, 44, 32, 39, 96, 98, 96, 39] @ str '']'')
   \<and> sublist [98] (str ''Error: invoked agent of type x, the only allowed types are [''
          @ [39, 96, 97, 96, 39, 44, 32, 39, 96, 98, 96, 39] @ str '']'')"
proof -
  let ?agents = "[([97 :: nat], example_agent), ([98], example_agent)]"
  let ?msg = "str ''Error: invoked agent of type x, the only allowed types are [''
          @ [39, 96, 97, 96, 39, 44, 32, 39, 96, 98, 96, 39] @ str '']''"
  have a: "\<not> dict_contains [120] ?agents" by (simp add: dict_contains_def)
  have k: "dict_contains [97] ?agents \<and> plain_text [97]"
    "dict_contains [98] ?agents \<and> plain_text [98]"
    by (simp_all add: dict_contains_def plain_text_def)
  have v: "task (\<lambda>c. True) ?agents [100] [120] example_parent [116]
       = (example_parent, Inr (Text ?msg))"
    by (simp add: task_def dict_contains_def dict_keys_def repr_list_def repr_str_def
        repr_char_def str_def)
  from task_unknown_subagent [OF a, of "\<lambda>c. True" "[100]" example_parent "[116]"]
  obtain msg where
    m: "task (\<lambda>c. True) ?agents [100] [120] example_parent [116]
         = (example_parent, Inr (Text msg))"
    and s: "\<forall>k. dict_contains k ?agents \<and> plain_text k \<longrightarrow> sublist k msg"
    by blast
  from m v have "msg = ?msg" by simp
  with s k have "sublist [97] ?msg" "sublist [98] ?msg" by blast+
  with a k v show ?thesis by blast
qed







end
